theory Spec2Isabelle
  imports Main "HOL-Library.AList"
begin

section \<open>Data model (core/state.py)\<close>

text \<open>
  Python values of type \<open>Any\<close> (action configuration, results, metadata, the decoded
  reply of the failure advisor) are modelled by a small JSON-like datatype. \<open>VNone\<close> is
  Python's \<open>None\<close>.
\<close>

datatype pyval = VNone | VInt int | VStr string | VList "pyval list" | VDict "(string \<times> pyval) list"

datatype py_error = KeyError string | TypeError

datatype TaskStatus = PENDING | IN_PROGRESS | COMPLETED | FAILED | SKIPPED | RETRYING

text \<open>Class \<open>Task\<close>. Timestamps are readings of a clock, modelled as natural numbers.\<close>

record Task =
  task_id :: string
  name :: string
  description :: string
  action_type :: string
  action_config :: "(string \<times> pyval) list"
  status :: TaskStatus
  dependencies :: "string list"
  retry_count :: int
  error :: "string option"
  result :: pyval
  started_at :: "nat option"
  completed_at :: "nat option"

text \<open>Class \<open>WorkflowContext\<close>; its fields carry the prefix \<open>ctx_\<close> where a task field
  has the same name.\<close>

record WorkflowContext =
  workflow_id :: string
  goal :: string
  ctx_started_at :: nat
  ctx_completed_at :: "nat option"
  ctx_status :: string
  metadata :: "(string \<times> pyval) list"

text \<open>An entry of \<open>execution_history\<close> and an entry of \<open>errors\<close>.\<close>

record history_entry =
  h_task_id :: string
  h_status :: string
  h_timestamp :: nat
  h_result :: "pyval option"
  h_error :: "string option"

record error_entry =
  e_step :: string
  e_error :: string
  e_timestamp :: nat

text \<open>
  Class \<open>WorkflowState\<close>. The dictionaries \<open>tasks\<close> and \<open>memory\<close> keep insertion order, so
  they are association lists; \<open>AList.update\<close> overwrites the value of an existing key in
  place and appends a new key at the end, as assignment to a Python dictionary does.
\<close>

record WorkflowState =
  "context" :: WorkflowContext
  tasks :: "(string \<times> Task) list"
  execution_history :: "history_entry list"
  current_task :: "string option"
  memory :: "(string \<times> pyval) list"
  errors :: "error_entry list"
  next_tasks :: "string list"
  completed_tasks :: "string list"
  failed_tasks :: "string list"

definition create_initial_state :: "string \<Rightarrow> string \<Rightarrow> nat \<Rightarrow> WorkflowState" where
  "create_initial_state wid g now =
     \<lparr> context = \<lparr> workflow_id = wid, goal = g, ctx_started_at = now,
                    ctx_completed_at = None, ctx_status = ''running'', metadata = [] \<rparr>,
       tasks = [], execution_history = [], current_task = None, memory = [],
       errors = [], next_tasks = [], completed_tasks = [], failed_tasks = [] \<rparr>"

text \<open>The part of \<open>config.py\<close> the core reads.\<close>

record Settings =
  max_retries :: int
  database_url :: "string option"

section \<open>Action dispatcher (core/executor.py)\<close>

text \<open>
  The five handlers talk to the network, the file system and the clock. What a handler does
  is a parameter of the model: it either raises (with the text of the exception) or returns
  its data; every handler that returns does so with status \<open>success\<close>.
\<close>

datatype handler_outcome = Raises string | Returns pyval

type_synonym handlers = "string \<Rightarrow> (string \<times> pyval) list \<Rightarrow> handler_outcome"

record action_result =
  r_status :: string
  r_error :: "string option"
  r_data :: pyval

definition run_handler :: "handler_outcome \<Rightarrow> action_result" where
  "run_handler out =
     (case out of
        Returns d \<Rightarrow> \<lparr> r_status = ''success'', r_error = None, r_data = d \<rparr>
      | Raises msg \<Rightarrow> \<lparr> r_status = ''error'', r_error = Some msg, r_data = VNone \<rparr>)"

text \<open>\<open>ActionExecutor.execute\<close>: the \<open>if\<close>/\<open>elif\<close> chain over the tag; the last branch raises
  \<open>ValueError\<close>, which the enclosing \<open>except\<close> turns into an error result.\<close>

definition execute :: "handlers \<Rightarrow> string \<Rightarrow> (string \<times> pyval) list \<Rightarrow> action_result" where
  "execute env atype config =
     (if atype = ''api_call'' then run_handler (env ''api_call'' config)
      else if atype = ''db_query'' then run_handler (env ''db_query'' config)
      else if atype = ''file_operation'' then run_handler (env ''file_operation'' config)
      else if atype = ''transform_data'' then run_handler (env ''transform_data'' config)
      else if atype = ''wait'' then run_handler (env ''wait'' config)
      else run_handler (Raises (''Unknown action type: '' @ atype)))"

section \<open>Executor agent (agents/executor_agent.py)\<close>

text \<open>\<open>ExecutorAgent.execute_task\<close>. The optional reasoning call only logs.\<close>

definition execute_task :: "handlers \<Rightarrow> Task \<Rightarrow> WorkflowState \<Rightarrow> action_result" where
  "execute_task env task s =
     (let r = execute env (action_type task) (action_config task) in
      if r_status r = ''error''
      then \<lparr> r_status = ''failed'',
             r_error = Some (case r_error r of None \<Rightarrow> ''Unknown error'' | Some m \<Rightarrow> m),
             r_data = VNone \<rparr>
      else \<lparr> r_status = ''success'', r_error = None, r_data = r_data r \<rparr>)"

text \<open>
  The failure advisor is the language model behind \<open>handle_failure\<close>. Its reply is a
  parameter: the call or the decoding of its answer raises (\<open>AdvisorFails\<close>), or the answer
  decodes to a JSON value (\<open>AdvisorSays\<close>).
\<close>

datatype advisor_reply = AdvisorFails | AdvisorSays pyval

type_synonym advisor = "Task \<Rightarrow> string \<Rightarrow> int \<Rightarrow> int \<Rightarrow> advisor_reply"

text \<open>Python's \<open>str\<close> on an integer, for the reason text of a decision.\<close>

fun str_nat :: "nat \<Rightarrow> string" where
  "str_nat n = (if n < 10 then [char_of (48 + n)] else str_nat (n div 10) @ [char_of (48 + n mod 10)])"

definition str_int :: "int \<Rightarrow> string" where
  "str_int i = (if i < 0 then CHR ''-'' # str_nat (nat (- i)) else str_nat (nat i))"

text \<open>\<open>state["context"]["metadata"].get("max_retries", 3)\<close>; comparing the retry count with
  a value that is not a number raises \<open>TypeError\<close>.\<close>

definition metadata_max_retries :: "WorkflowState \<Rightarrow> py_error + int" where
  "metadata_max_retries s =
     (case map_of (metadata (context s)) ''max_retries'' of
        None \<Rightarrow> Inr 3
      | Some (VInt n) \<Rightarrow> Inr n
      | Some _ \<Rightarrow> Inl TypeError)"

definition handle_failure :: "advisor \<Rightarrow> Task \<Rightarrow> string \<Rightarrow> WorkflowState \<Rightarrow> int \<Rightarrow> py_error + pyval" where
  "handle_failure adv task err s rc =
     (case metadata_max_retries s of
        Inl e \<Rightarrow> Inl e
      | Inr mr \<Rightarrow>
          if rc \<ge> mr
          then Inr (VDict [(''action'', VStr ''fail_workflow''),
                           (''reason'', VStr (''Max retries ('' @ str_int mr @ '') exceeded''))])
          else (case adv task err rc mr of
                  AdvisorSays d \<Rightarrow> Inr d
                | AdvisorFails \<Rightarrow>
                    Inr (VDict [(''action'', VStr (if rc < mr then ''retry'' else ''fail_workflow'')),
                                (''reason'', VStr ''Default decision'')])))"

section \<open>Planning agent (agents/planner.py)\<close>

text \<open>\<open>PlanningAgent.decide_next_tasks\<close>; \<open>state["tasks"].get(task_id, {})\<close> gives a task
  without dependencies for an unknown id.\<close>

definition decide_next_tasks :: "WorkflowState \<Rightarrow> string list \<Rightarrow> string list" where
  "decide_next_tasks s available =
     (if available = [] then []
      else filter (\<lambda>tid.
             list_all (\<lambda>dep. dep \<in> set (completed_tasks s))
               (case map_of (tasks s) tid of None \<Rightarrow> [] | Some t \<Rightarrow> dependencies t)
             \<and> tid \<notin> set (completed_tasks s) \<and> tid \<notin> set (failed_tasks s)) available)"

text \<open>
  What \<open>plan_workflow\<close> hands to the engine: it raises, or it returns descriptors in which
  \<open>task_id\<close> and \<open>dependencies\<close> are always present. A descriptor that lacks another required
  key makes \<open>_plan_node\<close> raise \<open>KeyError\<close> inside the same \<open>try\<close> block, so that case is
  part of \<open>PlannerRaises\<close>.
\<close>

record task_descr =
  d_task_id :: string
  d_name :: string
  d_description :: string
  d_action_type :: string
  d_action_config :: "(string \<times> pyval) list"
  d_dependencies :: "string list"

datatype planner_reply = PlannerRaises string | Planned "task_descr list"

section \<open>Workflow engine (core/engine.py)\<close>

definition new_task :: "task_descr \<Rightarrow> Task" where
  "new_task d =
     \<lparr> task_id = d_task_id d, name = d_name d, description = d_description d,
       action_type = d_action_type d, action_config = d_action_config d,
       status = PENDING, dependencies = d_dependencies d, retry_count = 0,
       error = None, result = VNone, started_at = None, completed_at = None \<rparr>"

definition plan_node :: "planner_reply \<Rightarrow> nat \<Rightarrow> WorkflowState \<Rightarrow> WorkflowState" where
  "plan_node reply now s =
     (case reply of
        Planned ds \<Rightarrow>
          s\<lparr> tasks := foldl (\<lambda>task_dict d. AList.update (d_task_id d) (new_task d) task_dict) [] ds,
             next_tasks := map d_task_id (filter (\<lambda>d. d_dependencies d = []) ds) \<rparr>
      | PlannerRaises msg \<Rightarrow>
          s\<lparr> errors := errors s @ [\<lparr> e_step = ''plan'', e_error = msg, e_timestamp = now \<rparr>],
             context := (context s)\<lparr> ctx_status := ''failed'' \<rparr> \<rparr>)"

text \<open>The loop of \<open>_decide_node\<close> over the items of \<open>tasks\<close>, in insertion order.\<close>

definition available_tasks :: "WorkflowState \<Rightarrow> string list" where
  "available_tasks s =
     map fst (filter (\<lambda>(tid, task).
        \<not> (tid \<in> set (completed_tasks s) \<or> tid \<in> set (failed_tasks s))
        \<and> list_all (\<lambda>dep. dep \<in> set (completed_tasks s)) (dependencies task)) (tasks s))"

definition decide_node :: "WorkflowState \<Rightarrow> WorkflowState" where
  "decide_node s =
     (let available = available_tasks s in
      if available = [] then s\<lparr> next_tasks := [] \<rparr>
      else s\<lparr> next_tasks := decide_next_tasks s available \<rparr>)"

datatype node = Plan | Decide | Execute | HandleFailure | Complete | End

text \<open>The comprehension of \<open>_should_continue\<close>: \<open>state["tasks"][tid]\<close> raises for an id that
  is not a key.\<close>

fun with_budget :: "(string \<times> Task) list \<Rightarrow> int \<Rightarrow> string list \<Rightarrow> py_error + string list" where
  "with_budget ts mr [] = Inr []"
| "with_budget ts mr (tid # rest) =
     (case map_of ts tid of
        None \<Rightarrow> Inl (KeyError tid)
      | Some t \<Rightarrow>
          (case with_budget ts mr rest of
             Inl e \<Rightarrow> Inl e
           | Inr r \<Rightarrow> Inr (if retry_count t < mr then tid # r else r)))"

definition should_continue :: "Settings \<Rightarrow> WorkflowState \<Rightarrow> py_error + node" where
  "should_continue cfg s =
     (if next_tasks s = []
      then (case with_budget (tasks s) (max_retries cfg) (failed_tasks s) of
              Inl e \<Rightarrow> Inl e
            | Inr ft \<Rightarrow> Inr (if ft \<noteq> [] then HandleFailure else Complete))
      else Inr Execute)"

text \<open>\<open>_execute_node\<close>; \<open>t0\<close>, \<open>t1\<close> and \<open>t2\<close> are the three readings of the clock.\<close>

definition execute_node :: "handlers \<Rightarrow> nat \<Rightarrow> nat \<Rightarrow> nat \<Rightarrow> WorkflowState \<Rightarrow> py_error + WorkflowState" where
  "execute_node env t0 t1 t2 s =
     (case next_tasks s of
        [] \<Rightarrow> Inr s
      | current_task_id # _ \<Rightarrow>
          (case map_of (tasks s) current_task_id of
             None \<Rightarrow> Inl (KeyError current_task_id)
           | Some task0 \<Rightarrow>
               let task1 = task0\<lparr> status := IN_PROGRESS, started_at := Some t0 \<rparr>;
                   res = execute_task env task1 s;
                   task2 = task1\<lparr> completed_at := Some t1 \<rparr>;
                   remaining_tasks = filter (\<lambda>tid. tid \<noteq> current_task_id) (next_tasks s)
               in if r_status res = ''success''
                  then
                    let task3 = task2\<lparr> status := COMPLETED, result := r_data res, error := None \<rparr> in
                    Inr (s\<lparr> tasks := AList.update current_task_id task3 (tasks s),
                            completed_tasks := completed_tasks s @ [current_task_id],
                            memory := AList.update (''task_'' @ current_task_id @ ''_result'')
                                        (r_data res) (memory s),
                            execution_history := execution_history s @
                              [\<lparr> h_task_id = current_task_id, h_status = ''success'',
                                 h_timestamp = t2, h_result = Some (r_data res), h_error = None \<rparr>],
                            next_tasks := remaining_tasks,
                            current_task := None \<rparr>)
                  else
                    let task3 = task2\<lparr> status := FAILED, error := r_error res \<rparr> in
                    Inr (s\<lparr> tasks := AList.update current_task_id task3 (tasks s),
                            failed_tasks := failed_tasks s @ [current_task_id],
                            execution_history := execution_history s @
                              [\<lparr> h_task_id = current_task_id, h_status = ''failed'',
                                 h_timestamp = t2, h_result = None, h_error = r_error res \<rparr>],
                            next_tasks := remaining_tasks,
                            current_task := None \<rparr>)))"

text \<open>The search loop of \<open>_handle_failure_node\<close>: the first failed task below the ceiling.\<close>

fun first_with_budget :: "(string \<times> Task) list \<Rightarrow> int \<Rightarrow> string list \<Rightarrow> py_error + string option" where
  "first_with_budget ts mr [] = Inr None"
| "first_with_budget ts mr (tid # rest) =
     (case map_of ts tid of
        None \<Rightarrow> Inl (KeyError tid)
      | Some t \<Rightarrow> if retry_count t < mr then Inr (Some tid) else first_with_budget ts mr rest)"

text \<open>\<open>decision["action"]\<close> on the decoded reply.\<close>

definition decision_action :: "pyval \<Rightarrow> py_error + pyval" where
  "decision_action d =
     (case d of
        VDict kvs \<Rightarrow> (case map_of kvs ''action'' of None \<Rightarrow> Inl (KeyError ''action'') | Some a \<Rightarrow> Inr a)
      | _ \<Rightarrow> Inl TypeError)"

definition fail_workflow :: "nat \<Rightarrow> WorkflowState \<Rightarrow> WorkflowState" where
  "fail_workflow now s =
     s\<lparr> context := (context s)\<lparr> ctx_status := ''failed'', ctx_completed_at := Some now \<rparr> \<rparr>"

text \<open>\<open>task["error"] or "Unknown error"\<close>.\<close>

definition error_or_unknown :: "string option \<Rightarrow> string" where
  "error_or_unknown e = (case e of None \<Rightarrow> ''Unknown error'' | Some m \<Rightarrow> if m = [] then ''Unknown error'' else m)"

text \<open>\<open>_handle_failure_node\<close>. The test \<open>not task_to_retry\<close> is also true of the empty
  string.\<close>

definition handle_failure_node :: "Settings \<Rightarrow> advisor \<Rightarrow> nat \<Rightarrow> WorkflowState \<Rightarrow> py_error + WorkflowState" where
  "handle_failure_node cfg adv now s =
     (if failed_tasks s = [] then Inr s
      else
        (case first_with_budget (tasks s) (max_retries cfg) (failed_tasks s) of
           Inl e \<Rightarrow> Inl e
         | Inr None \<Rightarrow> Inr (fail_workflow now s)
         | Inr (Some task_to_retry) \<Rightarrow>
             if task_to_retry = [] then Inr (fail_workflow now s)
             else
               (case map_of (tasks s) task_to_retry of
                  None \<Rightarrow> Inl (KeyError task_to_retry)
                | Some task \<Rightarrow>
                    (case handle_failure adv task (error_or_unknown (error task)) s (retry_count task) of
                       Inl e \<Rightarrow> Inl e
                     | Inr decision \<Rightarrow>
                         (case decision_action decision of
                            Inl e \<Rightarrow> Inl e
                          | Inr a \<Rightarrow>
                              if a = VStr ''retry'' then
                                Inr (s\<lparr> tasks := AList.update task_to_retry
                                          (task\<lparr> retry_count := retry_count task + 1,
                                                 status := RETRYING, error := None \<rparr>) (tasks s),
                                        failed_tasks := filter (\<lambda>tid. tid \<noteq> task_to_retry) (failed_tasks s),
                                        next_tasks := [task_to_retry],
                                        current_task := Some task_to_retry \<rparr>)
                              else if a = VStr ''skip'' then
                                Inr (s\<lparr> tasks := AList.update task_to_retry
                                          (task\<lparr> status := SKIPPED \<rparr>) (tasks s),
                                        failed_tasks := filter (\<lambda>tid. tid \<noteq> task_to_retry) (failed_tasks s) \<rparr>)
                              else Inr (fail_workflow now s))))))"

definition complete_node :: "nat \<Rightarrow> WorkflowState \<Rightarrow> WorkflowState" where
  "complete_node now s =
     (let failed_count = length (failed_tasks s);
          st0 = ''completed'';
          st1 = (if failed_count > 0 then ''completed_with_errors'' else st0);
          st2 = (if ctx_status (context s) = ''failed'' then ''failed'' else st1)
      in s\<lparr> context := (context s)\<lparr> ctx_status := st2, ctx_completed_at := Some now \<rparr> \<rparr>)"

text \<open>\<open>run\<close>: the initial state, with the caller's configuration written into \<open>metadata\<close>.\<close>

definition run_initial_state :: "string \<Rightarrow> string \<Rightarrow> (string \<times> pyval) list \<Rightarrow> nat \<Rightarrow> WorkflowState" where
  "run_initial_state wid g conf now =
     (let s = create_initial_state wid g now in
      s\<lparr> context := (context s)\<lparr> metadata := foldl (\<lambda>m (k, v). AList.update k v m) (metadata (context s)) conf \<rparr> \<rparr>)"

text \<open>
  The graph of \<open>_build_graph\<close> as a step relation on pairs of the node about to run and the
  state it receives: \<open>plan\<close> goes to \<open>decide\<close>; after \<open>decide\<close> the router \<open>_should_continue\<close>
  reads the updated state; \<open>execute\<close> and \<open>handle_failure\<close> go back to \<open>decide\<close>; \<open>complete\<close>
  ends the run. Planner, handlers, advisor and clock are arbitrary at every step. A node
  that raises has no successor.
\<close>

inductive driver_step :: "Settings \<Rightarrow> node \<times> WorkflowState \<Rightarrow> node \<times> WorkflowState \<Rightarrow> bool"
  for cfg :: Settings where
  step_plan: "driver_step cfg (Plan, s) (Decide, plan_node reply now s)"
| step_decide: "should_continue cfg (decide_node s) = Inr n \<Longrightarrow>
     driver_step cfg (Decide, s) (n, decide_node s)"
| step_execute: "execute_node env t0 t1 t2 s = Inr s' \<Longrightarrow>
     driver_step cfg (Execute, s) (Decide, s')"
| step_handle_failure: "handle_failure_node cfg adv now s = Inr s' \<Longrightarrow>
     driver_step cfg (HandleFailure, s) (Decide, s')"
| step_complete: "driver_step cfg (Complete, s) (End, complete_node now s)"

inductive reachable :: "Settings \<Rightarrow> node \<times> WorkflowState \<Rightarrow> bool"
  for cfg :: Settings where
  reach_start: "reachable cfg (Plan, run_initial_state wid g conf now)"
| reach_step: "reachable cfg c \<Longrightarrow> driver_step cfg c c' \<Longrightarrow> reachable cfg c'"

text \<open>
  A run of the graph against a script of what the outside world answers: one event per
  node executed, carrying the planner's reply, the handlers, the advisor and the clock
  readings that node sees. An event that does not fit the node about to run, or a node
  that raises, ends the run with \<open>None\<close>. The step limit of the graph library is not
  modelled.
\<close>

datatype event =
    EvPlan planner_reply nat
  | EvDecide
  | EvExecute handlers nat nat nat
  | EvHandleFailure advisor nat
  | EvComplete nat

fun fire :: "Settings \<Rightarrow> event \<Rightarrow> node \<times> WorkflowState \<Rightarrow> (node \<times> WorkflowState) option" where
  "fire cfg (EvPlan reply now) (Plan, s) = Some (Decide, plan_node reply now s)"
| "fire cfg EvDecide (Decide, s) =
     (case should_continue cfg (decide_node s) of
        Inr n \<Rightarrow> Some (n, decide_node s)
      | Inl _ \<Rightarrow> None)"
| "fire cfg (EvExecute env t0 t1 t2) (Execute, s) =
     (case execute_node env t0 t1 t2 s of
        Inr s' \<Rightarrow> Some (Decide, s')
      | Inl _ \<Rightarrow> None)"
| "fire cfg (EvHandleFailure adv now) (HandleFailure, s) =
     (case handle_failure_node cfg adv now s of
        Inr s' \<Rightarrow> Some (Decide, s')
      | Inl _ \<Rightarrow> None)"
| "fire cfg (EvComplete now) (Complete, s) = Some (End, complete_node now s)"
| "fire cfg _ _ = None"

fun run_events :: "Settings \<Rightarrow> event list \<Rightarrow> node \<times> WorkflowState \<Rightarrow> (node \<times> WorkflowState) option" where
  "run_events cfg [] c = Some c"
| "run_events cfg (ev # evs) c =
     (case fire cfg ev c of None \<Rightarrow> None | Some c' \<Rightarrow> run_events cfg evs c')"

section \<open>Invariants of the task lists\<close>

definition lists_inv :: "WorkflowState \<Rightarrow> bool" where
  "lists_inv s \<longleftrightarrow>
     distinct (map fst (tasks s)) \<and> distinct (completed_tasks s) \<and> distinct (failed_tasks s)
     \<and> set (completed_tasks s) \<inter> set (failed_tasks s) = {}
     \<and> set (completed_tasks s) \<subseteq> set (map fst (tasks s))
     \<and> set (failed_tasks s) \<subseteq> set (map fst (tasks s))
     \<and> set (next_tasks s) \<subseteq> set (map fst (tasks s)) - set (completed_tasks s) - set (failed_tasks s)"

definition errors_inv :: "WorkflowState \<Rightarrow> bool" where
  "errors_inv s \<longleftrightarrow>
     (\<forall>tid t. map_of (tasks s) tid = Some t \<longrightarrow>
        (error t \<noteq> None \<longleftrightarrow> status t = FAILED \<or> status t = SKIPPED))
     \<and> (\<forall>tid \<in> set (failed_tasks s). \<exists>t. map_of (tasks s) tid = Some t \<and> status t = FAILED)"

definition conf_inv :: "node \<times> WorkflowState \<Rightarrow> bool" where
  "conf_inv c \<longleftrightarrow>
     lists_inv (snd c) \<and> errors_inv (snd c)
     \<and> (fst c = Plan \<longrightarrow> completed_tasks (snd c) = [] \<and> failed_tasks (snd c) = [])"




section \<open>Concrete workflows\<close>

definition cfg3 :: Settings where
  "cfg3 = \<lparr> max_retries = 3, database_url = None \<rparr>"

definition cfg1 :: Settings where
  "cfg1 = \<lparr> max_retries = 1, database_url = None \<rparr>"


definition wait_descr :: "string \<Rightarrow> string list \<Rightarrow> task_descr" where
  "wait_descr tid deps =
     \<lparr> d_task_id = tid, d_name = tid, d_description = [], d_action_type = ''wait'',
       d_action_config = [], d_dependencies = deps \<rparr>"

definition ok_env :: handlers where
  "ok_env = (\<lambda>_ _. Returns VNone)"

definition bad_env :: handlers where
  "bad_env = (\<lambda>_ _. Raises ''boom'')"

definition says :: "string \<Rightarrow> advisor" where
  "says a = (\<lambda>_ _ _ _. AdvisorSays (VDict [(''action'', VStr a)]))"

definition start0 :: "node \<times> WorkflowState" where
  "start0 = (Plan, run_initial_state ''w'' ''g'' [] 0)"

definition start1 :: "node \<times> WorkflowState" where
  "start1 = (Plan, run_initial_state ''w'' ''g'' [(''max_retries'', VInt 1)] 0)"

text \<open>Values and states of the concrete workflows used below; the handlers either all succeed
  (\<open>ok_env\<close>) or all raise \<open>boom\<close> (\<open>bad_env\<close>).\<close>

definition wait_task :: "string \<Rightarrow> string list \<Rightarrow> TaskStatus \<Rightarrow> int \<Rightarrow> string option \<Rightarrow> nat option \<Rightarrow> nat option \<Rightarrow> Task" where
  "wait_task tid deps st rc err sa ca =
     \<lparr> task_id = tid, name = tid, description = [], action_type = ''wait'', action_config = [],
       status = st, dependencies = deps, retry_count = rc, error = err, result = VNone,
       started_at = sa, completed_at = ca \<rparr>"

definition failed_entry :: "string \<Rightarrow> nat \<Rightarrow> history_entry" where
  "failed_entry tid ts =
     \<lparr> h_task_id = tid, h_status = ''failed'', h_timestamp = ts, h_result = None, h_error = Some ''boom'' \<rparr>"

definition success_entry :: "string \<Rightarrow> nat \<Rightarrow> history_entry" where
  "success_entry tid ts =
     \<lparr> h_task_id = tid, h_status = ''success'', h_timestamp = ts, h_result = Some VNone, h_error = None \<rparr>"

definition running_context :: "(string \<times> pyval) list \<Rightarrow> WorkflowContext" where
  "running_context md =
     \<lparr> workflow_id = ''w'', goal = ''g'', ctx_started_at = 0, ctx_completed_at = None,
       ctx_status = ''running'', metadata = md \<rparr>"

definition retrying_state :: WorkflowState where
  "retrying_state =
     \<lparr> context = running_context [],
       tasks = [(''A'', wait_task ''A'' [] RETRYING 1 None (Some 2) (Some 3))],
       execution_history = [failed_entry ''A'' 4],
       current_task = Some ''A'', memory = [], errors = [],
       next_tasks = [''A''], completed_tasks = [], failed_tasks = [] \<rparr>"

definition skipped_state :: WorkflowState where
  "skipped_state =
     \<lparr> context = running_context [],
       tasks = [(''A'', wait_task ''A'' [] SKIPPED 0 (Some ''boom'') (Some 2) (Some 3))],
       execution_history = [failed_entry ''A'' 4],
       current_task = None, memory = [], errors = [],
       next_tasks = [], completed_tasks = [], failed_tasks = [] \<rparr>"

definition mixed_state :: WorkflowState where
  "mixed_state =
     \<lparr> context = running_context [],
       tasks = [(''A'', wait_task ''A'' [] COMPLETED 0 None (Some 2) (Some 3)),
                (''B'', wait_task ''B'' [] FAILED 0 (Some ''boom'') (Some 5) (Some 6))],
       execution_history = [success_entry ''A'' 4, failed_entry ''B'' 7],
       current_task = None, memory = [(''task_A_result'', VNone)], errors = [],
       next_tasks = [], completed_tasks = [''A''], failed_tasks = [''B''] \<rparr>"


definition stalled_state :: WorkflowState where
  "stalled_state =
     \<lparr> context = running_context [],
       tasks = [(''A'', wait_task ''A'' [] COMPLETED 0 None (Some 2) (Some 3)),
                (''B'', wait_task ''B'' [''Z''] PENDING 0 None None None)],
       execution_history = [success_entry ''A'' 4],
       current_task = None, memory = [(''task_A_result'', VNone)], errors = [],
       next_tasks = [], completed_tasks = [''A''], failed_tasks = [] \<rparr>"



definition abc_plan :: "task_descr list" where
  "abc_plan = [wait_descr ''A'' [], wait_descr ''B'' [''A''], wait_descr ''C'' [''A'', ''B'']]"

definition abc_tasks :: "TaskStatus \<Rightarrow> nat option \<Rightarrow> nat option \<Rightarrow> TaskStatus \<Rightarrow> nat option \<Rightarrow> nat option
    \<Rightarrow> TaskStatus \<Rightarrow> nat option \<Rightarrow> nat option \<Rightarrow> (string \<times> Task) list" where
  "abc_tasks sa a0 a1 sb b0 b1 sc c0 c1 =
     [(''A'', wait_task ''A'' [] sa 0 None a0 a1),
      (''B'', wait_task ''B'' [''A''] sb 0 None b0 b1),
      (''C'', wait_task ''C'' [''A'', ''B''] sc 0 None c0 c1)]"

definition abc_state :: "(string \<times> Task) list \<Rightarrow> history_entry list \<Rightarrow> (string \<times> pyval) list
    \<Rightarrow> string list \<Rightarrow> string list \<Rightarrow> WorkflowState" where
  "abc_state ts hist mem nxt done =
     \<lparr> context = running_context [], tasks = ts, execution_history = hist,
       current_task = None, memory = mem, errors = [],
       next_tasks = nxt, completed_tasks = done, failed_tasks = [] \<rparr>"

definition abc_initial :: WorkflowState where
  "abc_initial = abc_state (abc_tasks PENDING None None PENDING None None PENDING None None)
     [] [] [''A''] []"

definition abc_after_A :: WorkflowState where
  "abc_after_A = abc_state (abc_tasks COMPLETED (Some 2) (Some 3) PENDING None None PENDING None None)
     [success_entry ''A'' 4] [(''task_A_result'', VNone)] [] [''A'']"

definition abc_after_B :: WorkflowState where
  "abc_after_B = abc_state (abc_tasks COMPLETED (Some 2) (Some 3) COMPLETED (Some 5) (Some 6) PENDING None None)
     [success_entry ''A'' 4, success_entry ''B'' 7]
     [(''task_A_result'', VNone), (''task_B_result'', VNone)] [] [''A'', ''B'']"

definition abc_after_C :: WorkflowState where
  "abc_after_C = abc_state (abc_tasks COMPLETED (Some 2) (Some 3) COMPLETED (Some 5) (Some 6) COMPLETED (Some 8) (Some 9))
     [success_entry ''A'' 4, success_entry ''B'' 7, success_entry ''C'' 10]
     [(''task_A_result'', VNone), (''task_B_result'', VNone), (''task_C_result'', VNone)]
     [] [''A'', ''B'', ''C'']"

definition skipped_rerun :: WorkflowState where
  "skipped_rerun =
     \<lparr> context = running_context [],
       tasks = [(''A'', wait_task ''A'' [] COMPLETED 0 None (Some 6) (Some 7))],
       execution_history = [failed_entry ''A'' 4, success_entry ''A'' 8],
       current_task = None, memory = [(''task_A_result'', VNone)], errors = [],
       next_tasks = [], completed_tasks = [''A''], failed_tasks = [] \<rparr>"



declare str_nat.simps [simp del]

lemmas concrete_defs = cfg3_def cfg1_def wait_descr_def ok_env_def bad_env_def says_def start0_def start1_def
  wait_task_def failed_entry_def success_entry_def running_context_def

lemmas node_defs = plan_node_def decide_node_def available_tasks_def decide_next_tasks_def
  should_continue_def execute_node_def execute_task_def execute_def run_handler_def
  handle_failure_node_def handle_failure_def metadata_max_retries_def decision_action_def
  error_or_unknown_def fail_workflow_def complete_node_def run_initial_state_def
  create_initial_state_def new_task_def Let_def

lemmas abc_defs = abc_plan_def abc_tasks_def abc_state_def abc_initial_def abc_after_A_def
  abc_after_B_def abc_after_C_def

section \<open>Association lists\<close>


lemma key_of_lookup: "map_of al k = Some v \<Longrightarrow> k \<in> set (map fst al)"
  by (auto dest: map_of_SomeD intro: rev_image_eqI)

lemma update_present_keys:
  "k \<in> fst ` set al \<Longrightarrow> fst ` set (AList.update k v al) = fst ` set al"
  by (auto simp: dom_update)

section \<open>Every step keeps the invariants\<close>

subsection \<open>plan\<close>

lemma plan_keys:
  "fst ` set (foldl (\<lambda>td d. AList.update (d_task_id d) (new_task d) td) acc ds)
     = fst ` set acc \<union> d_task_id ` set ds"
  by (induction ds arbitrary: acc) (simp_all add: dom_update)

lemma plan_distinct:
  "distinct (map fst acc) \<Longrightarrow>
   distinct (map fst (foldl (\<lambda>td d. AList.update (d_task_id d) (new_task d) td) acc ds))"
  by (induction ds arbitrary: acc) (auto simp: distinct_update)

lemma plan_entries:
  "map_of (foldl (\<lambda>td d. AList.update (d_task_id d) (new_task d) td) acc ds) tid = Some t
   \<Longrightarrow> map_of acc tid = Some t \<or> (\<exists>d \<in> set ds. t = new_task d)"
proof (induction ds arbitrary: acc)
  case Nil
  then show ?case by simp
next
  case (Cons d ds)
  from Cons.IH [of "AList.update (d_task_id d) (new_task d) acc"] Cons.prems
  show ?case by (auto simp: update_conv' split: if_splits)
qed

lemma plan_entries_fresh:
  assumes "map_of (foldl (\<lambda>td d. AList.update (d_task_id d) (new_task d) td) [] ds) tid = Some t"
  shows "status t = PENDING \<and> error t = None"
  using plan_entries [OF assms] by (auto simp: new_task_def)

lemma plan_node_inv:
  assumes "conf_inv (Plan, s)"
  shows "conf_inv (Decide, plan_node reply now s)"
proof (cases reply)
  case (PlannerRaises msg)
  with assms show ?thesis
    by (auto simp: conf_inv_def lists_inv_def errors_inv_def plan_node_def)
next
  case (Planned ds)
  have l: "lists_inv (plan_node reply now s)"
    using assms Planned
    by (auto simp: conf_inv_def lists_inv_def plan_node_def plan_keys plan_distinct)
  have e: "errors_inv (plan_node reply now s)"
    using assms Planned
    by (auto simp: conf_inv_def errors_inv_def plan_node_def dest!: plan_entries_fresh)
  from l e show ?thesis by (simp add: conf_inv_def)
qed

subsection \<open>decide\<close>

lemma available_subset:
  "set (available_tasks s) \<subseteq> set (map fst (tasks s)) - set (completed_tasks s) - set (failed_tasks s)"
  by (auto simp: available_tasks_def)

lemma decide_next_subset: "set (decide_next_tasks s av) \<subseteq> set av"
  by (auto simp: decide_next_tasks_def)

lemma decide_node_fields:
  "tasks (decide_node s) = tasks s" "completed_tasks (decide_node s) = completed_tasks s"
  "failed_tasks (decide_node s) = failed_tasks s" "context (decide_node s) = context s"
  "errors (decide_node s) = errors s"
  by (simp_all add: decide_node_def Let_def)

lemma decide_node_next_subset:
  "set (next_tasks (decide_node s)) \<subseteq> set (available_tasks s)"
  using decide_next_subset [of s "available_tasks s"]
  by (simp add: decide_node_def Let_def)

lemma decide_node_inv:
  assumes "conf_inv (n, s)" and that: "n' \<noteq> Plan"
  shows "conf_inv (n', decide_node s)"
proof -
  have "set (next_tasks (decide_node s))
          \<subseteq> set (map fst (tasks s)) - set (completed_tasks s) - set (failed_tasks s)"
    using decide_node_next_subset available_subset by blast
  with assms that show ?thesis
    by (auto simp: conf_inv_def lists_inv_def errors_inv_def decide_node_fields)
qed

subsection \<open>execute\<close>

lemma execute_task_failed_error:
  "r_status (execute_task env t s) \<noteq> ''success'' \<Longrightarrow> \<exists>m. r_error (execute_task env t s) = Some m"
  by (simp add: execute_task_def Let_def split: if_splits)

lemma execute_node_cases:
  assumes "execute_node env t0 t1 t2 s = Inr s'"
  obtains (idle) "next_tasks s = []" "s' = s"
  | (success) cur task0 task3 where
      "cur \<in> set (next_tasks s)" "map_of (tasks s) cur = Some task0"
      "tasks s' = AList.update cur task3 (tasks s)"
      "status task3 = COMPLETED" "error task3 = None"
      "completed_tasks s' = completed_tasks s @ [cur]"
      "failed_tasks s' = failed_tasks s"
      "next_tasks s' = filter (\<lambda>tid. tid \<noteq> cur) (next_tasks s)"
      "errors s' = errors s"
  | (failure) cur task0 task3 where
      "cur \<in> set (next_tasks s)" "map_of (tasks s) cur = Some task0"
      "tasks s' = AList.update cur task3 (tasks s)"
      "status task3 = FAILED" "error task3 \<noteq> None"
      "completed_tasks s' = completed_tasks s"
      "failed_tasks s' = failed_tasks s @ [cur]"
      "next_tasks s' = filter (\<lambda>tid. tid \<noteq> cur) (next_tasks s)"
      "errors s' = errors s"
proof (cases "next_tasks s")
  case Nil
  with assms have "s' = s" by (simp add: execute_node_def)
  with Nil show ?thesis by (rule idle)
next
  case (Cons cur rest)
  with assms obtain task0 where t0: "map_of (tasks s) cur = Some task0"
    by (auto simp: execute_node_def split: option.splits)
  let ?t1 = "task0\<lparr> status := IN_PROGRESS, started_at := Some t0 \<rparr>"
  let ?res = "execute_task env ?t1 s"
  show ?thesis
  proof (cases "r_status ?res = ''success''")
    case True
    show ?thesis
      by (rule success [of cur task0
            "?t1\<lparr> completed_at := Some t1, status := COMPLETED, result := r_data ?res, error := None \<rparr>"])
         (use assms Cons t0 True in \<open>auto simp: execute_node_def Let_def\<close>)
  next
    case False
    from execute_task_failed_error [OF False] obtain m where m: "r_error ?res = Some m" ..
    show ?thesis
      by (rule failure [of cur task0
            "?t1\<lparr> completed_at := Some t1, status := FAILED, error := r_error ?res \<rparr>"])
         (use assms Cons t0 False m in \<open>auto simp: execute_node_def Let_def\<close>)
  qed
qed

lemma lists_inv_next:
  assumes "lists_inv s" "cur \<in> set (next_tasks s)"
  shows "cur \<in> fst ` set (tasks s)" "cur \<notin> set (completed_tasks s)" "cur \<notin> set (failed_tasks s)"
  using assms by (auto simp: lists_inv_def)

lemma lists_inv_update_tasks:
  assumes "lists_inv s" "cur \<in> fst ` set (tasks s)" "tasks s' = AList.update cur v (tasks s)"
  shows "distinct (map fst (tasks s'))" "fst ` set (tasks s') = fst ` set (tasks s)"
  using assms by (simp_all add: lists_inv_def distinct_update update_present_keys)

lemma execute_node_lists_inv:
  assumes inv: "lists_inv s" and ex: "execute_node env t0 t1 t2 s = Inr s'"
  shows "lists_inv s'"
  using ex
proof (cases rule: execute_node_cases)
  case idle
  with inv show ?thesis by simp
next
  case (success cur task0 task3)
  note c = lists_inv_next [OF inv success(1)]
  note u = lists_inv_update_tasks [OF inv c(1) success(3)]
  show ?thesis
    unfolding lists_inv_def
    using inv c u success(6,7,8) by (auto simp: lists_inv_def)
next
  case (failure cur task0 task3)
  note c = lists_inv_next [OF inv failure(1)]
  note u = lists_inv_update_tasks [OF inv c(1) failure(3)]
  show ?thesis
    unfolding lists_inv_def
    using inv c u failure(6,7,8) by (auto simp: lists_inv_def)
qed

lemma errors_inv_update:
  assumes e: "errors_inv s"
    and t: "tasks s' = AList.update cur v (tasks s)"
    and v: "error v \<noteq> None \<longleftrightarrow> status v = FAILED \<or> status v = SKIPPED"
    and f: "\<forall>tid \<in> set (failed_tasks s'). tid \<in> set (failed_tasks s) \<and> tid \<noteq> cur \<or> tid = cur \<and> status v = FAILED"
  shows "errors_inv s'"
  unfolding errors_inv_def
proof (intro conjI allI impI ballI)
  fix tid t assume "map_of (tasks s') tid = Some t"
  then have "tid = cur \<and> t = v \<or> map_of (tasks s) tid = Some t"
    by (auto simp: t update_conv' split: if_splits)
  then show "error t \<noteq> None \<longleftrightarrow> status t = FAILED \<or> status t = SKIPPED"
    using e v unfolding errors_inv_def by blast
next
  fix tid assume "tid \<in> set (failed_tasks s')"
  with f consider "tid \<in> set (failed_tasks s)" "tid \<noteq> cur" | "tid = cur" "status v = FAILED"
    by blast
  then show "\<exists>t. map_of (tasks s') tid = Some t \<and> status t = FAILED"
  proof cases
    case 1
    with e obtain t where "map_of (tasks s) tid = Some t" "status t = FAILED"
      unfolding errors_inv_def by blast
    with 1 show ?thesis by (simp add: t update_conv')
  next
    case 2
    then show ?thesis by (simp add: t update_conv')
  qed
qed

lemma execute_node_errors_inv:
  assumes inv: "lists_inv s" and e: "errors_inv s" and ex: "execute_node env t0 t1 t2 s = Inr s'"
  shows "errors_inv s'"
  using ex
proof (cases rule: execute_node_cases)
  case idle
  with e show ?thesis by simp
next
  case (success cur task0 task3)
  note c = lists_inv_next [OF inv success(1)]
  show ?thesis
    by (rule errors_inv_update [OF e success(3)]) (use success c in auto)
next
  case (failure cur task0 task3)
  show ?thesis
    by (rule errors_inv_update [OF e failure(3)]) (use failure in auto)
qed


subsection \<open>handle_failure\<close>

lemma first_with_budget_member:
  "first_with_budget ts mr fs = Inr (Some tid) \<Longrightarrow> tid \<in> set fs"
  by (induction fs) (auto split: option.splits if_splits)

lemma handle_failure_node_cases:
  assumes "handle_failure_node cfg adv now s = Inr s'"
  obtains (idle) "s' = s"
  | (fail) "s' = fail_workflow now s"
  | (retry) tid task where
      "tid \<in> set (failed_tasks s)" "map_of (tasks s) tid = Some task"
      "tasks s' = AList.update tid
         (task\<lparr> retry_count := retry_count task + 1, status := RETRYING, error := None \<rparr>) (tasks s)"
      "failed_tasks s' = filter (\<lambda>x. x \<noteq> tid) (failed_tasks s)"
      "next_tasks s' = [tid]" "completed_tasks s' = completed_tasks s" "errors s' = errors s"
  | (skip) tid task where
      "tid \<in> set (failed_tasks s)" "map_of (tasks s) tid = Some task"
      "tasks s' = AList.update tid (task\<lparr> status := SKIPPED \<rparr>) (tasks s)"
      "failed_tasks s' = filter (\<lambda>x. x \<noteq> tid) (failed_tasks s)"
      "next_tasks s' = next_tasks s" "completed_tasks s' = completed_tasks s" "errors s' = errors s"
proof (cases "failed_tasks s = []")
  case True
  with assms have "s' = s" by (simp add: handle_failure_node_def)
  then show ?thesis by (rule idle)
next
  case ne: False
  show ?thesis
  proof (cases "first_with_budget (tasks s) (max_retries cfg) (failed_tasks s)")
    case (Inl e)
    with assms ne show ?thesis by (simp add: handle_failure_node_def)
  next
    case (Inr sel)
    show ?thesis
    proof (cases sel)
      case None
      with assms ne Inr have "s' = fail_workflow now s" by (simp add: handle_failure_node_def)
      then show ?thesis by (rule fail)
    next
      case (Some tid)
      note sel = Inr [unfolded Some]
      have mem: "tid \<in> set (failed_tasks s)" using sel by (rule first_with_budget_member)
      show ?thesis
      proof (cases "tid = []")
        case True
        with assms ne sel have "s' = fail_workflow now s" by (simp add: handle_failure_node_def)
        then show ?thesis by (rule fail)
      next
        case tne: False
        from assms ne sel tne obtain task where tk: "map_of (tasks s) tid = Some task"
          by (auto simp: handle_failure_node_def split: option.splits)
        from assms ne sel tne tk obtain d where
          d: "handle_failure adv task (error_or_unknown (error task)) s (retry_count task) = Inr d"
          by (auto simp: handle_failure_node_def split: sum.splits)
        from assms ne sel tne tk d obtain a where a: "decision_action d = Inr a"
          by (auto simp: handle_failure_node_def split: sum.splits)
        consider "a = VStr ''retry''" | "a \<noteq> VStr ''retry''" "a = VStr ''skip''"
          | "a \<noteq> VStr ''retry''" "a \<noteq> VStr ''skip''" by blast
        then show ?thesis
        proof cases
          case 1
          show ?thesis
            by (rule retry [OF mem tk]) (use assms ne sel tne tk d a 1 in \<open>auto simp: handle_failure_node_def\<close>)
        next
          case 2
          show ?thesis
            by (rule skip [OF mem tk]) (use assms ne sel tne tk d a 2 in \<open>auto simp: handle_failure_node_def\<close>)
        next
          case 3
          with assms ne sel tne tk d a have "s' = fail_workflow now s"
            by (simp add: handle_failure_node_def)
          then show ?thesis by (rule fail)
        qed
      qed
    qed
  qed
qed

lemma fail_workflow_fields:
  "tasks (fail_workflow now s) = tasks s" "completed_tasks (fail_workflow now s) = completed_tasks s"
  "failed_tasks (fail_workflow now s) = failed_tasks s" "next_tasks (fail_workflow now s) = next_tasks s"
  by (simp_all add: fail_workflow_def)

lemma complete_node_fields:
  "tasks (complete_node now s) = tasks s" "completed_tasks (complete_node now s) = completed_tasks s"
  "failed_tasks (complete_node now s) = failed_tasks s" "next_tasks (complete_node now s) = next_tasks s"
  by (simp_all add: complete_node_def Let_def)

lemma lists_inv_failed:
  assumes "lists_inv s" "tid \<in> set (failed_tasks s)"
  shows "tid \<in> fst ` set (tasks s)" "tid \<notin> set (completed_tasks s)"
  using assms by (auto simp: lists_inv_def)

lemma handle_failure_node_lists_inv:
  assumes inv: "lists_inv s" and hf: "handle_failure_node cfg adv now s = Inr s'"
  shows "lists_inv s'"
  using hf
proof (cases rule: handle_failure_node_cases)
  case idle
  with inv show ?thesis by simp
next
  case fail
  with inv show ?thesis by (simp add: lists_inv_def fail_workflow_fields)
next
  case (retry tid task)
  note c = lists_inv_failed [OF inv retry(1)]
  note u = lists_inv_update_tasks [OF inv c(1) retry(3)]
  show ?thesis
    unfolding lists_inv_def
    using inv c u retry(4,5,6) by (auto simp: lists_inv_def)
next
  case (skip tid task)
  note c = lists_inv_failed [OF inv skip(1)]
  note u = lists_inv_update_tasks [OF inv c(1) skip(3)]
  show ?thesis
    unfolding lists_inv_def
    using inv c u skip(4,5,6) by (auto simp: lists_inv_def)
qed

lemma errors_inv_failed:
  assumes "errors_inv s" "tid \<in> set (failed_tasks s)" "map_of (tasks s) tid = Some task"
  shows "status task = FAILED" "error task \<noteq> None"
proof -
  from assms show "status task = FAILED" unfolding errors_inv_def by fastforce
  with assms show "error task \<noteq> None" unfolding errors_inv_def by blast
qed

lemma handle_failure_node_errors_inv:
  assumes e: "errors_inv s" and hf: "handle_failure_node cfg adv now s = Inr s'"
  shows "errors_inv s'"
  using hf
proof (cases rule: handle_failure_node_cases)
  case idle
  with e show ?thesis by simp
next
  case fail
  with e show ?thesis by (simp add: errors_inv_def fail_workflow_fields)
next
  case (retry tid task)
  show ?thesis
    by (rule errors_inv_update [OF e retry(3)]) (use retry in auto)
next
  case (skip tid task)
  note f = errors_inv_failed [OF e skip(1,2)]
  show ?thesis
    by (rule errors_inv_update [OF e skip(3)]) (use skip f in auto)
qed


subsection \<open>Reachable states\<close>

lemma initial_conf_inv: "conf_inv (Plan, run_initial_state wid g conf now)"
  by (simp add: conf_inv_def lists_inv_def errors_inv_def run_initial_state_def
      create_initial_state_def Let_def)

lemma driver_step_inv:
  assumes "driver_step cfg c c'" "conf_inv c"
  shows "conf_inv c'"
  using assms
proof (cases rule: driver_step.cases)
  case (step_plan s reply now)
  with assms(2) show ?thesis by (simp add: plan_node_inv)
next
  case (step_decide s n)
  have "n \<noteq> Plan"
    using step_decide(3) by (auto simp: should_continue_def split: if_splits sum.splits)
  with assms(2) step_decide show ?thesis by (simp add: decide_node_inv)
next
  case (step_execute env t0 t1 t2 s s')
  with assms(2) show ?thesis
    by (auto simp: conf_inv_def dest: execute_node_lists_inv execute_node_errors_inv)
next
  case (step_handle_failure adv now s s')
  with assms(2) show ?thesis
    by (auto simp: conf_inv_def dest: handle_failure_node_lists_inv handle_failure_node_errors_inv)
next
  case (step_complete s now)
  with assms(2) show ?thesis
    by (auto simp: conf_inv_def lists_inv_def errors_inv_def complete_node_fields)
qed

lemma reachable_conf_inv: "reachable cfg c \<Longrightarrow> conf_inv c"
  by (induction rule: reachable.induct) (auto intro: initial_conf_inv driver_step_inv)

lemma fire_step: "fire cfg ev c = Some c' \<Longrightarrow> driver_step cfg c c'"
  by (cases "(cfg, ev, c)" rule: fire.cases)
     (auto split: sum.splits intro: driver_step.intros)

lemma run_events_reachable:
  "run_events cfg evs c = Some c' \<Longrightarrow> reachable cfg c \<Longrightarrow> reachable cfg c'"
proof (induction evs arbitrary: c)
  case Nil
  then show ?case by simp
next
  case (Cons ev evs)
  then obtain c1 where f: "fire cfg ev c = Some c1" and r: "run_events cfg evs c1 = Some c'"
    by (auto split: option.splits)
  from f have "driver_step cfg c c1" by (rule fire_step)
  with Cons.prems(2) have "reachable cfg c1" by (rule reach_step)
  with r show ?case by (rule Cons.IH)
qed

lemma start0_reachable: "reachable cfg start0"
  unfolding start0_def by (rule reach_start)

lemma start1_reachable: "reachable cfg start1"
  unfolding start1_def by (rule reach_start)

section \<open>Concrete runs\<close>

lemma retrying_run:
  "run_events cfg3 [EvPlan (Planned [wait_descr ''A'' []]) 1, EvDecide, EvExecute bad_env 2 3 4,
      EvDecide, EvHandleFailure (says ''retry'') 5] start0 = Some (Decide, retrying_state)"
  by (simp add: retrying_state_def concrete_defs node_defs)

lemma skipped_run:
  "run_events cfg3 [EvPlan (Planned [wait_descr ''A'' []]) 1, EvDecide, EvExecute bad_env 2 3 4,
      EvDecide, EvHandleFailure (says ''skip'') 5] start0 = Some (Decide, skipped_state)"
  by (simp add: skipped_state_def concrete_defs node_defs)

lemma mixed_run:
  "run_events cfg3 [EvPlan (Planned [wait_descr ''A'' [], wait_descr ''B'' []]) 1, EvDecide,
      EvExecute ok_env 2 3 4, EvDecide, EvExecute bad_env 5 6 7] start0 = Some (Decide, mixed_state)"
  by (simp add: mixed_state_def concrete_defs node_defs)


lemma stalled_run:
  "run_events cfg3 [EvPlan (Planned [wait_descr ''A'' [], wait_descr ''B'' [''Z'']]) 1, EvDecide,
      EvExecute ok_env 2 3 4, EvDecide] start0 = Some (Complete, stalled_state)"
  by (simp add: stalled_state_def concrete_defs node_defs)

section \<open>The action dispatcher\<close>

text \<open>
  Claim C9. For an action type outside the five known tags, \<open>execute\<close> returns a result (it
  is a total function: the \<open>ValueError\<close> of the last branch is caught) whose status is
  \<open>error\<close>, whose data is \<open>None\<close> and whose message is \<open>Unknown action type: \<close> followed by
  the offending tag: the message names the unknown-action kind and the tag.
\<close>

theorem execute_unknown_action:
  assumes "atype \<notin> {''api_call'', ''db_query'', ''file_operation'', ''transform_data'', ''wait''}"
  shows "execute env atype config =
           \<lparr> r_status = ''error'', r_error = Some (''Unknown action type: '' @ atype), r_data = VNone \<rparr>"
  using assms by (simp add: execute_def run_handler_def)

theorem execute_unknown_action_witness:
  "''nonexistent'' \<notin> {''api_call'', ''db_query'', ''file_operation'', ''transform_data'', ''wait''}
   \<and> execute (\<lambda>_ _. Returns VNone) ''nonexistent'' [] =
           \<lparr> r_status = ''error'', r_error = Some ''Unknown action type: nonexistent'', r_data = VNone \<rparr>"
  using execute_unknown_action [of "''nonexistent''" "\<lambda>_ _. Returns VNone" "[]"] by simp

section \<open>The failure-handling step\<close>









section \<open>Invariants of reachable states\<close>

text \<open>
  Claim C2. In every state the driver can reach, \<open>completed_tasks\<close> and \<open>failed_tasks\<close> are
  disjoint, neither list repeats an id, the keys of \<open>tasks\<close> are distinct, every id of
  either list is a key of \<open>tasks\<close>, and every id of \<open>next_tasks\<close> is a key of \<open>tasks\<close> that
  is in neither list.
\<close>

theorem reachable_task_lists:
  assumes "reachable cfg (n, s)"
  shows "set (completed_tasks s) \<inter> set (failed_tasks s) = {}
     \<and> distinct (completed_tasks s) \<and> distinct (failed_tasks s) \<and> distinct (map fst (tasks s))
     \<and> set (completed_tasks s) \<subseteq> set (map fst (tasks s))
     \<and> set (failed_tasks s) \<subseteq> set (map fst (tasks s))
     \<and> set (next_tasks s) \<subseteq> set (map fst (tasks s)) - set (completed_tasks s) - set (failed_tasks s)"
  using reachable_conf_inv [OF assms] by (simp add: conf_inv_def lists_inv_def)

theorem reachable_task_lists_witness:
  "reachable cfg3 (Decide, mixed_state)
   \<and> completed_tasks mixed_state = [''A''] \<and> failed_tasks mixed_state = [''B'']
   \<and> set (completed_tasks mixed_state) \<inter> set (failed_tasks mixed_state) = {}
   \<and> set (completed_tasks mixed_state) \<subseteq> set (map fst (tasks mixed_state))
   \<and> set (failed_tasks mixed_state) \<subseteq> set (map fst (tasks mixed_state))"
proof -
  have r: "reachable cfg3 (Decide, mixed_state)"
    by (rule run_events_reachable [OF mixed_run start0_reachable])
  from reachable_task_lists [OF r] r show ?thesis by (simp add: mixed_state_def)
qed

text \<open>
  Claim C8, as stated, fails: after one failure answered by \<open>retry\<close>, the reachable state
  below holds a task with status \<open>RETRYING\<close> whose error is \<open>None\<close>.
\<close>

theorem retrying_task_counterexample:
  "reachable cfg3 (Decide, retrying_state)
   \<and> map_of (tasks retrying_state) ''A'' = Some (wait_task ''A'' [] RETRYING 1 None (Some 2) (Some 3))
   \<and> status (wait_task ''A'' [] RETRYING 1 None (Some 2) (Some 3)) = RETRYING
   \<and> error (wait_task ''A'' [] RETRYING 1 None (Some 2) (Some 3)) = None"
proof -
  have r: "reachable cfg3 (Decide, retrying_state)"
    by (rule run_events_reachable [OF retrying_run start0_reachable])
  then show ?thesis by (simp add: retrying_state_def wait_task_def)
qed

text \<open>
  Claim C8, amended. In every reachable state a task's error is not \<open>None\<close> if and only if
  its status is \<open>FAILED\<close> or \<open>SKIPPED\<close>: \<open>retry\<close> clears the error, \<open>skip\<close> keeps it.
\<close>

theorem reachable_error_iff_failed_or_skipped:
  assumes "reachable cfg (n, s)" and "map_of (tasks s) tid = Some t"
  shows "error t \<noteq> None \<longleftrightarrow> status t = FAILED \<or> status t = SKIPPED"
  using reachable_conf_inv [OF assms(1)] assms(2)
  unfolding conf_inv_def errors_inv_def by auto

theorem reachable_error_iff_failed_or_skipped_witness:
  "reachable cfg3 (Decide, skipped_state)
   \<and> map_of (tasks skipped_state) ''A'' = Some (wait_task ''A'' [] SKIPPED 0 (Some ''boom'') (Some 2) (Some 3))
   \<and> (error (wait_task ''A'' [] SKIPPED 0 (Some ''boom'') (Some 2) (Some 3)) \<noteq> None
        \<longleftrightarrow> status (wait_task ''A'' [] SKIPPED 0 (Some ''boom'') (Some 2) (Some 3)) = FAILED
          \<or> status (wait_task ''A'' [] SKIPPED 0 (Some ''boom'') (Some 2) (Some 3)) = SKIPPED)"
proof -
  have r: "reachable cfg3 (Decide, skipped_state)"
    by (rule run_events_reachable [OF skipped_run start0_reachable])
  have m: "map_of (tasks skipped_state) ''A'' = Some (wait_task ''A'' [] SKIPPED 0 (Some ''boom'') (Some 2) (Some 3))"
    by (simp add: skipped_state_def)
  from reachable_error_iff_failed_or_skipped [OF r m] r m show ?thesis by simp
qed

section \<open>Readiness\<close>

lemma available_iff:
  assumes d: "distinct (map fst (tasks s))" and m: "map_of (tasks s) tid = Some task"
  shows "tid \<in> set (available_tasks s) \<longleftrightarrow>
     tid \<notin> set (completed_tasks s) \<and> tid \<notin> set (failed_tasks s)
     \<and> (\<forall>dep \<in> set (dependencies task). dep \<in> set (completed_tasks s))"
proof -
  have in_iff: "(tid, t) \<in> set (tasks s) \<longleftrightarrow> t = task" for t
    using d m by (metis map_of_eq_Some_iff option.inject)
  have "tid \<in> set (available_tasks s) \<longleftrightarrow>
      (\<exists>t. (tid, t) \<in> set (tasks s) \<and> tid \<notin> set (completed_tasks s) \<and> tid \<notin> set (failed_tasks s)
         \<and> (\<forall>dep \<in> set (dependencies t). dep \<in> set (completed_tasks s)))"
    unfolding available_tasks_def by (force simp: list_all_iff)
  then show ?thesis by (simp add: in_iff)
qed

lemma decide_node_ready_iff:
  assumes d: "distinct (map fst (tasks s))" and m: "map_of (tasks s) tid = Some task"
  shows "tid \<in> set (next_tasks (decide_node s)) \<longleftrightarrow>
     tid \<notin> set (completed_tasks s) \<and> tid \<notin> set (failed_tasks s)
     \<and> (\<forall>dep \<in> set (dependencies task). dep \<in> set (completed_tasks s))"
proof (cases "available_tasks s = []")
  case True
  then have "tid \<notin> set (available_tasks s)" by simp
  with True available_iff [OF d m] show ?thesis by (simp add: decide_node_def)
next
  case False
  then have "tid \<in> set (next_tasks (decide_node s)) \<longleftrightarrow>
      tid \<in> set (available_tasks s) \<and> tid \<notin> set (completed_tasks s) \<and> tid \<notin> set (failed_tasks s)
      \<and> (\<forall>dep \<in> set (dependencies task). dep \<in> set (completed_tasks s))"
    using m by (auto simp: decide_node_def decide_next_tasks_def list_all_iff)
  with available_iff [OF d m] show ?thesis by blast
qed

text \<open>
  Claim C3. For a task \<open>tid\<close> of the state, the decide step puts \<open>tid\<close> into \<open>next_tasks\<close> if
  and only if it is neither completed nor failed and every one of its dependencies is
  completed. For the plan A, B (after A), C (after A and B) with handlers that succeed, the
  ready list is \<open>[A]\<close>, then \<open>[B]\<close>, then \<open>[C]\<close>, then empty; the router then chooses
  \<open>complete\<close>, and the final status is \<open>completed\<close>.
\<close>

theorem ready_iff_and_abc_scenario:
  "(distinct (map fst (tasks s)) \<and> map_of (tasks s) tid = Some task \<longrightarrow>
      (tid \<in> set (next_tasks (decide_node s)) \<longleftrightarrow>
         tid \<notin> set (completed_tasks s) \<and> tid \<notin> set (failed_tasks s)
         \<and> (\<forall>dep \<in> set (dependencies task). dep \<in> set (completed_tasks s))))
   \<and> plan_node (Planned abc_plan) 1 (snd start0) = abc_initial
   \<and> next_tasks (decide_node abc_initial) = [''A'']
   \<and> execute_node ok_env 2 3 4 (decide_node abc_initial) = Inr abc_after_A
   \<and> next_tasks (decide_node abc_after_A) = [''B'']
   \<and> execute_node ok_env 5 6 7 (decide_node abc_after_A) = Inr abc_after_B
   \<and> next_tasks (decide_node abc_after_B) = [''C'']
   \<and> execute_node ok_env 8 9 10 (decide_node abc_after_B) = Inr abc_after_C
   \<and> next_tasks (decide_node abc_after_C) = []
   \<and> should_continue cfg3 (decide_node abc_after_C) = Inr Complete
   \<and> ctx_status (context (complete_node 11 (decide_node abc_after_C))) = ''completed''
   \<and> run_events cfg3 [EvPlan (Planned abc_plan) 1, EvDecide, EvExecute ok_env 2 3 4, EvDecide,
        EvExecute ok_env 5 6 7, EvDecide, EvExecute ok_env 8 9 10, EvDecide, EvComplete 11] start0
       = Some (End, complete_node 11 (decide_node abc_after_C))"
proof -
  have p: "plan_node (Planned abc_plan) 1 (snd start0) = abc_initial"
    by (simp add: abc_defs concrete_defs node_defs)
  have d0: "decide_node abc_initial = abc_initial"
    by (simp add: abc_defs concrete_defs node_defs)
  have e0: "execute_node ok_env 2 3 4 abc_initial = Inr abc_after_A"
    by (simp add: abc_defs concrete_defs node_defs)
  have d1: "decide_node abc_after_A = abc_after_A\<lparr>next_tasks := [''B'']\<rparr>"
    by (simp add: abc_defs concrete_defs node_defs)
  have e1: "execute_node ok_env 5 6 7 (abc_after_A\<lparr>next_tasks := [''B'']\<rparr>) = Inr abc_after_B"
    by (simp add: abc_defs concrete_defs node_defs)
  have d2: "decide_node abc_after_B = abc_after_B\<lparr>next_tasks := [''C'']\<rparr>"
    by (simp add: abc_defs concrete_defs node_defs)
  have e2: "execute_node ok_env 8 9 10 (abc_after_B\<lparr>next_tasks := [''C'']\<rparr>) = Inr abc_after_C"
    by (simp add: abc_defs concrete_defs node_defs)
  have d3: "decide_node abc_after_C = abc_after_C"
    by (simp add: abc_defs concrete_defs node_defs)
  have n: "next_tasks abc_initial = [''A'']" "next_tasks abc_after_C = []"
    by (simp_all add: abc_defs)
  have r0: "should_continue cfg3 abc_initial = Inr Execute"
    "should_continue cfg3 (abc_after_A\<lparr>next_tasks := [''B'']\<rparr>) = Inr Execute"
    "should_continue cfg3 (abc_after_B\<lparr>next_tasks := [''C'']\<rparr>) = Inr Execute"
    "should_continue cfg3 abc_after_C = Inr Complete"
    by (simp_all add: abc_defs should_continue_def)
  have c: "ctx_status (context (complete_node 11 abc_after_C)) = ''completed''"
    by (simp add: abc_defs concrete_defs complete_node_def)
  have g: "distinct (map fst (tasks s)) \<and> map_of (tasks s) tid = Some task \<longrightarrow>
      (tid \<in> set (next_tasks (decide_node s)) \<longleftrightarrow>
         tid \<notin> set (completed_tasks s) \<and> tid \<notin> set (failed_tasks s)
         \<and> (\<forall>dep \<in> set (dependencies task). dep \<in> set (completed_tasks s)))"
    using decide_node_ready_iff [of s tid task] by blast
  have c1: "next_tasks (decide_node abc_initial) = [''A'']" by (simp add: d0 n)
  have c2: "execute_node ok_env 2 3 4 (decide_node abc_initial) = Inr abc_after_A"
    by (simp add: d0 e0)
  have c3: "next_tasks (decide_node abc_after_A) = [''B'']" by (simp add: d1)
  have c4: "execute_node ok_env 5 6 7 (decide_node abc_after_A) = Inr abc_after_B"
    by (simp add: d1 e1)
  have c5: "next_tasks (decide_node abc_after_B) = [''C'']" by (simp add: d2)
  have c6: "execute_node ok_env 8 9 10 (decide_node abc_after_B) = Inr abc_after_C"
    by (simp add: d2 e2)
  have c7: "next_tasks (decide_node abc_after_C) = []" by (simp add: d3 n)
  have c8: "should_continue cfg3 (decide_node abc_after_C) = Inr Complete" by (simp add: d3 r0)
  have c9: "ctx_status (context (complete_node 11 (decide_node abc_after_C))) = ''completed''"
    by (simp add: d3 c)
  have run: "run_events cfg3 [EvPlan (Planned abc_plan) 1, EvDecide, EvExecute ok_env 2 3 4, EvDecide,
        EvExecute ok_env 5 6 7, EvDecide, EvExecute ok_env 8 9 10, EvDecide, EvComplete 11] start0
       = Some (End, complete_node 11 (decide_node abc_after_C))"
    using p by (simp add: start0_def d0 e0 d1 e1 d2 e2 d3 r0)
  show ?thesis
    by (intro conjI) (fact g p c1 c2 c3 c4 c5 c6 c7 c8 c9 run)+
qed

theorem ready_iff_and_abc_scenario_witness:
  "distinct (map fst (tasks abc_after_A))
   \<and> map_of (tasks abc_after_A) ''B'' = Some (wait_task ''B'' [''A''] PENDING 0 None None None)
   \<and> dependencies (wait_task ''B'' [''A''] PENDING 0 None None None) = [''A'']
   \<and> ''A'' \<in> set (completed_tasks abc_after_A)
   \<and> ''B'' \<notin> set (completed_tasks abc_after_A) \<and> ''B'' \<notin> set (failed_tasks abc_after_A)
   \<and> ''B'' \<in> set (next_tasks (decide_node abc_after_A))"
proof -
  let ?b = "wait_task ''B'' [''A''] PENDING 0 None None None"
  have d: "distinct (map fst (tasks abc_after_A))" by (simp add: abc_defs)
  have m: "map_of (tasks abc_after_A) ''B'' = Some ?b" by (simp add: abc_defs)
  have dp: "dependencies ?b = [''A'']" by (simp add: wait_task_def)
  have a: "''A'' \<in> set (completed_tasks abc_after_A)" by (simp add: abc_defs)
  have c: "''B'' \<notin> set (completed_tasks abc_after_A)" "''B'' \<notin> set (failed_tasks abc_after_A)"
    by (simp_all add: abc_defs)
  have n: "\<forall>dep \<in> set (dependencies ?b). dep \<in> set (completed_tasks abc_after_A)"
    using a by (simp add: dp)
  from ready_iff_and_abc_scenario [of abc_after_A "''B''" ?b] d m
  have "''B'' \<in> set (next_tasks (decide_node abc_after_A)) \<longleftrightarrow>
         ''B'' \<notin> set (completed_tasks abc_after_A) \<and> ''B'' \<notin> set (failed_tasks abc_after_A)
         \<and> (\<forall>dep \<in> set (dependencies ?b). dep \<in> set (completed_tasks abc_after_A))"
    by blast
  with c n have r: "''B'' \<in> set (next_tasks (decide_node abc_after_A))" by blast
  show ?thesis
    by (intro conjI) (fact d m dp a c r)+
qed

section \<open>Skipped and stalled tasks\<close>

text \<open>
  Claim C4 does not hold of the code. A task fails and the advisor answers \<open>skip\<close>: the task
  gets status \<open>SKIPPED\<close> and leaves \<open>failed_tasks\<close>. The next decide step finds it neither
  completed nor failed, puts it back into \<open>next_tasks\<close>, the router chooses \<open>execute\<close>, and
  the task runs again and ends \<open>COMPLETED\<close>.
\<close>

theorem skipped_task_redispatched:
  "run_events cfg3 [EvPlan (Planned [wait_descr ''A'' []]) 1, EvDecide, EvExecute bad_env 2 3 4,
      EvDecide, EvHandleFailure (says ''skip'') 5] start0 = Some (Decide, skipped_state)
   \<and> map_of (tasks skipped_state) ''A'' = Some (wait_task ''A'' [] SKIPPED 0 (Some ''boom'') (Some 2) (Some 3))
   \<and> next_tasks (decide_node skipped_state) = [''A'']
   \<and> should_continue cfg3 (decide_node skipped_state) = Inr Execute
   \<and> execute_node ok_env 6 7 8 (decide_node skipped_state) = Inr skipped_rerun
   \<and> map_of (tasks skipped_rerun) ''A'' = Some (wait_task ''A'' [] COMPLETED 0 None (Some 6) (Some 7))"
proof -
  have d: "decide_node skipped_state = skipped_state\<lparr>next_tasks := [''A'']\<rparr>"
    by (simp add: skipped_state_def concrete_defs node_defs)
  have e: "execute_node ok_env 6 7 8 (skipped_state\<lparr>next_tasks := [''A'']\<rparr>) = Inr skipped_rerun"
    by (simp add: skipped_state_def skipped_rerun_def concrete_defs node_defs)
  have m: "map_of (tasks skipped_state) ''A'' = Some (wait_task ''A'' [] SKIPPED 0 (Some ''boom'') (Some 2) (Some 3))"
    "map_of (tasks skipped_rerun) ''A'' = Some (wait_task ''A'' [] COMPLETED 0 None (Some 6) (Some 7))"
    by (simp_all add: skipped_state_def skipped_rerun_def)
  have c1: "next_tasks (decide_node skipped_state) = [''A'']" by (simp add: d)
  have c2: "should_continue cfg3 (decide_node skipped_state) = Inr Execute"
    by (simp add: d should_continue_def)
  have c3: "execute_node ok_env 6 7 8 (decide_node skipped_state) = Inr skipped_rerun"
    by (simp add: d e)
  show ?thesis
    by (intro conjI) (fact skipped_run m c1 c2 c3)+
qed

text \<open>
  Claim C5 does not hold of the code. Task \<open>B\<close> depends on \<open>Z\<close>, which is no task of the
  plan, so \<open>B\<close> can never become ready. After \<open>A\<close> completes the readiness computation is
  empty while \<open>B\<close> is neither completed nor failed. The decide step takes this for the end
  of the work, the router chooses \<open>complete\<close>, and the run ends with an empty errors log
  and the status \<open>completed\<close>; \<open>B\<close> is still \<open>PENDING\<close>.
\<close>

theorem stalled_workflow_completes_silently:
  "run_events cfg3 [EvPlan (Planned [wait_descr ''A'' [], wait_descr ''B'' [''Z'']]) 1, EvDecide,
      EvExecute ok_env 2 3 4, EvDecide] start0 = Some (Complete, stalled_state)
   \<and> available_tasks stalled_state = []
   \<and> map_of (tasks stalled_state) ''Z'' = None
   \<and> run_events cfg3 [EvPlan (Planned [wait_descr ''A'' [], wait_descr ''B'' [''Z'']]) 1, EvDecide,
      EvExecute ok_env 2 3 4, EvDecide, EvComplete 5] start0 = Some (End, complete_node 5 stalled_state)
   \<and> map_of (tasks (complete_node 5 stalled_state)) ''B'' = Some (wait_task ''B'' [''Z''] PENDING 0 None None None)
   \<and> ''B'' \<notin> set (completed_tasks (complete_node 5 stalled_state))
   \<and> ''B'' \<notin> set (failed_tasks (complete_node 5 stalled_state))
   \<and> errors (complete_node 5 stalled_state) = []
   \<and> ctx_status (context (complete_node 5 stalled_state)) = ''completed''"
proof -
  have r: "run_events cfg3 [EvPlan (Planned [wait_descr ''A'' [], wait_descr ''B'' [''Z'']]) 1, EvDecide,
      EvExecute ok_env 2 3 4, EvDecide, EvComplete 5] start0 = Some (End, complete_node 5 stalled_state)"
    by (simp add: stalled_state_def concrete_defs node_defs)
  have c1: "available_tasks stalled_state = []"
    by (simp add: stalled_state_def concrete_defs available_tasks_def)
  have c2: "errors (complete_node 5 stalled_state) = []"
    "ctx_status (context (complete_node 5 stalled_state)) = ''completed''"
    by (simp_all add: stalled_state_def concrete_defs complete_node_def)
  have c3: "map_of (tasks (complete_node 5 stalled_state)) ''B'' = Some (wait_task ''B'' [''Z''] PENDING 0 None None None)"
    "''B'' \<notin> set (completed_tasks (complete_node 5 stalled_state))"
    "''B'' \<notin> set (failed_tasks (complete_node 5 stalled_state))"
    "map_of (tasks stalled_state) ''Z'' = None"
    by (simp_all add: stalled_state_def complete_node_fields)
  show ?thesis
    by (intro conjI) (fact stalled_run r c1 c2 c3)+
qed

section \<open>The complete step\<close>

subsection \<open>Ready tasks\<close>








subsection \<open>Failed and skipped tasks along a run\<close>















subsection \<open>Runs that end at the complete step\<close>









section \<open>Frame of a failed dispatch\<close>

text \<open>
  Claim C10. When the dispatch of the first task of \<open>next_tasks\<close> ends in failure, the
  execute step succeeds and leaves \<open>memory\<close>, \<open>completed_tasks\<close>, \<open>context\<close> and \<open>errors\<close>
  unchanged; the keys of \<open>tasks\<close> and every entry other than the failed task's are
  unchanged; \<open>failed_tasks\<close> gains the task, \<open>execution_history\<close> gains one entry, the task
  leaves \<open>next_tasks\<close>, and \<open>current_task\<close> is \<open>None\<close>.
\<close>

theorem execute_node_failure_frame:
  assumes nt: "next_tasks s = tid # rest"
    and tk: "map_of (tasks s) tid = Some task"
    and failed: "r_status (execute_task env (task\<lparr>status := IN_PROGRESS, started_at := Some t0\<rparr>) s) \<noteq> ''success''"
  shows "\<exists>s'. execute_node env t0 t1 t2 s = Inr s'
           \<and> memory s' = memory s \<and> completed_tasks s' = completed_tasks s
           \<and> context s' = context s \<and> errors s' = errors s
           \<and> map fst (tasks s') = map fst (tasks s)
           \<and> (\<forall>k. k \<noteq> tid \<longrightarrow> map_of (tasks s') k = map_of (tasks s) k)
           \<and> failed_tasks s' = failed_tasks s @ [tid]
           \<and> length (execution_history s') = Suc (length (execution_history s))
           \<and> next_tasks s' = filter (\<lambda>x. x \<noteq> tid) (next_tasks s)
           \<and> current_task s' = None"
proof -
  have k: "tid \<in> fst ` set (tasks s)" using tk by (rule key_of_lookup [simplified])
  show ?thesis
    using nt tk failed k
    by (simp add: execute_node_def Let_def update_conv' update_keys)
qed

theorem execute_node_failure_frame_witness:
  "next_tasks abc_initial = ''A'' # []
   \<and> map_of (tasks abc_initial) ''A'' = Some (wait_task ''A'' [] PENDING 0 None None None)
   \<and> r_status (execute_task bad_env
         ((wait_task ''A'' [] PENDING 0 None None None)\<lparr>status := IN_PROGRESS, started_at := Some 2\<rparr>)
         abc_initial) \<noteq> ''success''
   \<and> (\<exists>s'. execute_node bad_env 2 3 4 abc_initial = Inr s'
           \<and> memory s' = memory abc_initial \<and> completed_tasks s' = completed_tasks abc_initial
           \<and> failed_tasks s' = [''A''])"
proof -
  have nt: "next_tasks abc_initial = ''A'' # []" by (simp add: abc_defs)
  have tk: "map_of (tasks abc_initial) ''A'' = Some (wait_task ''A'' [] PENDING 0 None None None)"
    by (simp add: abc_defs)
  have f: "r_status (execute_task bad_env
         ((wait_task ''A'' [] PENDING 0 None None None)\<lparr>status := IN_PROGRESS, started_at := Some 2\<rparr>)
         abc_initial) \<noteq> ''success''"
    by (simp add: execute_task_def execute_def run_handler_def bad_env_def wait_task_def)
  have e: "failed_tasks abc_initial = []" by (simp add: abc_defs)
  from execute_node_failure_frame [OF nt tk f, of 3 4] e nt tk f
  show ?thesis by auto
qed

end
